theory Spec2Isabelle
  imports Main "HOL-Library.Sublist"
begin

section \<open>Python strings\<close>

text \<open>
  A Python \<open>str\<close> is modelled as a \<open>string\<close> whose characters are the code points
  below 256 (ASCII and Latin-1). On these, \<open>str.lower\<close> moves \<open>A\<close>..\<open>Z\<close> and the
  accented capitals (192..222 without the multiplication sign 215) up by 32 and leaves
  every other character alone; \<open>len\<close> counts characters.
\<close>

definition lower_char :: "char \<Rightarrow> char" where
  "lower_char c =
     (let n = (of_char c :: nat)
      in if (65 \<le> n \<and> n \<le> 90) \<or> (192 \<le> n \<and> n \<le> 222 \<and> n \<noteq> 215)
         then char_of (n + 32) else c)"

definition lower :: "string \<Rightarrow> string" where
  "lower s = map lower_char s"

text \<open>\<open>p in t\<close> on strings: \<open>p\<close> occurs in \<open>t\<close> as a contiguous substring.\<close>

fun startswith :: "string \<Rightarrow> string \<Rightarrow> bool" where
  "startswith [] t = True"
| "startswith (p # ps) [] = False"
| "startswith (p # ps) (c # cs) = (p = c \<and> startswith ps cs)"

fun contains :: "string \<Rightarrow> string \<Rightarrow> bool" where
  "contains p [] = (p = [])"
| "contains p (c # cs) = (startswith p (c # cs) \<or> contains p cs)"

text \<open>
  \<open>str.split()\<close> without arguments cuts at runs of whitespace and returns no empty
  piece. The whitespace characters below 256 are 9..13, 28..32, 133 and 160.
\<close>

definition isspace :: "char \<Rightarrow> bool" where
  "isspace c =
     (let n = (of_char c :: nat)
      in (9 \<le> n \<and> n \<le> 13) \<or> (28 \<le> n \<and> n \<le> 32) \<or> n = 133 \<or> n = 160)"

fun split_from :: "string \<Rightarrow> string \<Rightarrow> string list" where
  "split_from cur [] = (if cur = [] then [] else [cur])"
| "split_from cur (c # cs) =
     (if isspace c then (if cur = [] then split_from [] cs else cur # split_from [] cs)
      else split_from (cur @ [c]) cs)"

definition split :: "string \<Rightarrow> string list" where
  "split s = split_from [] s"

text \<open>\<open>s.split('.')\<close> cuts at every dot and always returns at least one piece.\<close>

fun split_at :: "char \<Rightarrow> string \<Rightarrow> string \<Rightarrow> string list" where
  "split_at sep cur [] = [cur]"
| "split_at sep cur (c # cs) =
     (if c = sep then cur # split_at sep [] cs else split_at sep (cur @ [c]) cs)"

text \<open>\<open>str(i)\<close> of a non-negative integer, as used by the f-strings \<open>f"{i} day"\<close>.\<close>

definition digit_char :: "nat \<Rightarrow> char" where
  "digit_char d = char_of (48 + d)"

fun str :: "nat \<Rightarrow> string" where
  "str n = (if n < 10 then [digit_char n] else str (n div 10) @ [digit_char (n mod 10)])"

declare str.simps [simp del]

section \<open>The recency classifier\<close>

text \<open>
  \<open>is_recent_job_posting\<close>: the three fixed phrases first, then the loop
  \<open>for i in range(1, 8)\<close> with its early return.
\<close>

fun day_loop :: "string \<Rightarrow> nat list \<Rightarrow> bool" where
  "day_loop text_lower [] = False"
| "day_loop text_lower (i # rest) =
     (if contains (str i @ '' day'') text_lower \<or> contains (str i @ ''d'') text_lower
      then True else day_loop text_lower rest)"

definition is_recent_job_posting :: "string \<Rightarrow> bool" where
  "is_recent_job_posting text =
     (let text_lower = lower text
      in if contains ''just posted'' text_lower \<or> contains ''new'' text_lower
            \<or> contains ''24 hours'' text_lower
         then True
         else day_loop text_lower [1..<8])"

section \<open>The keyword extractor\<close>

text \<open>
  The spaCy model is a parameter: \<open>None\<close> when loading it failed at start-up, otherwise
  the function from a text to its entities, each a pair of label and entity text.
  Console output is not modelled. A Python \<open>set\<close> is a duplicate-free list; the order
  of its elements is not fixed by Python, so properties are stated on \<open>set\<close>.
\<close>

type_synonym entity = "string \<times> string"

definition tech_skills :: "string list" where
  "tech_skills =
     [''Python'', ''JavaScript'', ''React'', ''Angular'', ''Vue'', ''Node.js'',
      ''SQL'', ''MongoDB'', ''AWS'', ''Azure'', ''Docker'', ''Kubernetes'',
      ''Machine Learning'', ''Data Science'', ''API'', ''FastAPI'']"

definition general_keywords :: "entity list \<Rightarrow> string list" where
  "general_keywords ents =
     map snd (filter (\<lambda>ent. fst ent \<in> set [''ORG'', ''GPE'', ''PRODUCT'', ''JOB'']) ents)"

definition found_skills :: "string \<Rightarrow> string list" where
  "found_skills resume_text =
     filter (\<lambda>skill. contains (lower skill) (lower resume_text)) tech_skills"

definition long_enough :: "string \<Rightarrow> bool" where
  "long_enough kw = (length (split kw) > 1 \<or> length kw > 3)"

definition extract_keywords_from_resume ::
  "(string \<Rightarrow> entity list) option \<Rightarrow> string \<Rightarrow> string list" where
  "extract_keywords_from_resume nlp resume_text =
     (case nlp of
        None \<Rightarrow> [''Fallback'', ''NLP Error'']
      | Some model \<Rightarrow>
          (let all_keywords =
                 remdups (general_keywords (model resume_text) @ found_skills resume_text)
           in filter long_enough all_keywords))"

text \<open>A model that finds no entity, as on a text without names.\<close>

definition no_entities :: "string \<Rightarrow> entity list" where
  "no_entities resume_text = []"

section \<open>The scrape coordinator\<close>

text \<open>
  The exceptions the handlers of the source tell apart, and the ones raised on the way.
  Every failure of an external call is a Python exception of class \<open>Exception\<close>.
\<close>

datatype exn =
  TimeoutException | WebDriverException | KeyError | UnicodeDecodeError
  | RequestException string | OtherException

text \<open>
  \<open>search(...)\<close> is a generator: a finite run of yielded URLs that ends normally or by
  raising, possibly after some URLs were handed out already.
\<close>

datatype 'a gen = Done | Fails exn | Yield 'a "'a gen"

fun yielded :: "'a gen \<Rightarrow> 'a list" where
  "yielded Done = []"
| "yielded (Fails e) = []"
| "yielded (Yield x g) = x # yielded g"

text \<open>
  The outside world of one run. The browser either starts or \<open>webdriver.Chrome\<close>
  raises. The \<open>n\<close>-th search call of the run (counted from 0) answers a query with a
  generator, the \<open>n\<close>-th page load answers a URL with the text that
  \<open>soup.get_text(" ", strip=True)\<close> extracts, or raises; two calls with the same
  argument need not agree. The pause before each load is not modelled.
\<close>

record env =
  start_driver :: "exn option"
  search :: "nat \<Rightarrow> string \<Rightarrow> string gen"
  fetch :: "nat \<Rightarrow> string \<Rightarrow> exn + string"

text \<open>
  A Python \<open>dict\<close> is an association list in insertion order with one pair per key:
  assigning to an existing key keeps its place, a new key goes to the end.
\<close>

type_synonym jobs = "(string \<times> string list) list"

fun dict_set :: "'k \<Rightarrow> 'v \<Rightarrow> ('k \<times> 'v) list \<Rightarrow> ('k \<times> 'v) list" where
  "dict_set k v [] = [(k, v)]"
| "dict_set k v (p # ps) = (if fst p = k then (k, v) # ps else p # dict_set k v ps)"

text \<open>
  The state of a run: the dictionary being filled and the calls made so far to the
  search provider, to \<open>driver.get\<close> and to \<open>driver.quit\<close>.
\<close>

record run =
  results_by_keyword :: jobs
  searches :: nat
  page_loads :: nat
  quits :: nat

definition hiring_words :: "string list" where
  "hiring_words = [''apply now'', ''vacancy'', ''hiring'', ''job'', ''careers'']"

definition hiring_signal :: "string \<Rightarrow> bool" where
  "hiring_signal text = list_ex (\<lambda>word. contains word text) hiring_words"

text \<open>
  The body of the inner \<open>try\<close>: load the page, lower-case its text, classify, append.
  It returns the exception raised, if any, with the state reached.
\<close>

definition visit :: "env \<Rightarrow> string \<Rightarrow> run \<Rightarrow> string \<Rightarrow> exn option \<times> run" where
  "visit world keyword st url =
     (let st1 = st\<lparr>page_loads := Suc (page_loads st)\<rparr>
      in case fetch world (page_loads st) url of
           Inl e \<Rightarrow> (Some e, st1)
         | Inr page \<Rightarrow>
             (let text = lower page
              in if hiring_signal text \<and> is_recent_job_posting text
                 then (case map_of (results_by_keyword st1) keyword of
                         None \<Rightarrow> (Some KeyError, st1)
                       | Some urls \<Rightarrow>
                           (None, st1\<lparr>results_by_keyword :=
                                        dict_set keyword (urls @ [url]) (results_by_keyword st1)\<rparr>))
                 else (None, st1)))"

text \<open>The inner \<open>try\<close> with its two handlers; both go on with the next URL.\<close>

definition process_url :: "env \<Rightarrow> string \<Rightarrow> run \<Rightarrow> string \<Rightarrow> run" where
  "process_url world keyword st url =
     (case visit world keyword st url of
        (None, st') \<Rightarrow> st'
      | (Some e, st') \<Rightarrow>
          (if e = TimeoutException \<or> e = WebDriverException then st' else st'))"

text \<open>The loop \<open>for url in search(...)\<close>; the generator may raise between two URLs.\<close>

fun for_urls :: "env \<Rightarrow> string \<Rightarrow> run \<Rightarrow> string gen \<Rightarrow> exn option \<times> run" where
  "for_urls world keyword st Done = (None, st)"
| "for_urls world keyword st (Fails e) = (Some e, st)"
| "for_urls world keyword st (Yield url g) =
     for_urls world keyword (process_url world keyword st url) g"

text \<open>One round of the outer loop: reset the entry, search, and catch what escapes.\<close>

definition scrape_keyword :: "env \<Rightarrow> run \<Rightarrow> string \<Rightarrow> run" where
  "scrape_keyword world st keyword =
     (let st1 = st\<lparr>results_by_keyword := dict_set keyword [] (results_by_keyword st),
                   searches := Suc (searches st)\<rparr>
      in case for_urls world keyword st1 (search world (searches st) (keyword @ '' job'')) of
           (None, st') \<Rightarrow> st'
         | (Some e, st') \<Rightarrow> st')"

fun for_keywords :: "env \<Rightarrow> run \<Rightarrow> string list \<Rightarrow> run" where
  "for_keywords world st [] = st"
| "for_keywords world st (keyword # rest) =
     for_keywords world (scrape_keyword world st keyword) rest"

definition fresh :: run where
  "fresh = \<lparr>results_by_keyword = [], searches = 0, page_loads = 0, quits = 0\<rparr>"

text \<open>
  \<open>scrape_jobs\<close>: the dictionary it returns is \<open>results_by_keyword\<close> of the final state.
\<close>

definition scrape_jobs :: "env \<Rightarrow> string list \<Rightarrow> run" where
  "scrape_jobs world keywords =
     (case start_driver world of
        Some e \<Rightarrow> fresh
      | None \<Rightarrow>
          (let st = for_keywords world fresh keywords
           in st\<lparr>quits := Suc (quits st)\<rparr>))"

text \<open>
  Not functions of the source, but names for what the loops compute: a page load is
  accepted when the page came and its lower-cased text passed both tests, and
  \<open>accepted world t urls\<close> are the URLs of \<open>urls\<close> whose load is accepted when the first
  of them is the \<open>t\<close>-th page load of the run.
\<close>

definition accepts :: "exn + string \<Rightarrow> bool" where
  "accepts outcome =
     (case outcome of
        Inl e \<Rightarrow> False
      | Inr page \<Rightarrow> hiring_signal (lower page) \<and> is_recent_job_posting (lower page))"

fun accepted :: "env \<Rightarrow> nat \<Rightarrow> string list \<Rightarrow> string list" where
  "accepted world t [] = []"
| "accepted world t (url # urls) =
     (if accepts (fetch world t url) then url # accepted world (Suc t) urls
      else accepted world (Suc t) urls)"

section \<open>The coordinator with its console output and interrupts\<close>

text \<open>
  The functions above stop at the exceptions of class \<open>Exception\<close> that the searches and
  the page loads raise. Two more things can go wrong while \<open>scrape_jobs\<close> runs, and both
  can leave the function with an exception:
  \<^item> a call of \<open>print\<close> can raise (a console that is closed or cannot encode the
    message); that is an exception of class \<open>Exception\<close>, caught only where a \<open>try\<close>
    encloses the call;
  \<^item> \<open>KeyboardInterrupt\<close> can arrive during the pause \<open>time.sleep\<close> before a page load;
    it is not of class \<open>Exception\<close>, so no handler of the source catches it.
  The functions below follow the source line by line with both.
\<close>

datatype thrown = Error exn | KeyboardInterrupt

text \<open>
  \<open>interrupted n\<close>: the interrupt arrives in the pause before the \<open>n\<close>-th page load of
  the run; \<open>print_fails n\<close>: the \<open>n\<close>-th call of \<open>print\<close> of the run raises (both counted
  from 0).
\<close>

record hazards =
  interrupted :: "nat \<Rightarrow> bool"
  print_fails :: "nat \<Rightarrow> bool"

record console_run =
  core :: run
  prints :: nat

definition py_print :: "hazards \<Rightarrow> console_run \<Rightarrow> thrown option \<times> console_run" where
  "py_print hz s =
     (if print_fails hz (prints s) then Some (Error OtherException) else None,
      s\<lparr>prints := Suc (prints s)\<rparr>)"

text \<open>
  Lines 133 to 143, the body of the inner \<open>try\<close>: the pause, the page load, the tests,
  then \<open>print\<close> and \<open>append\<close>, or the other \<open>print\<close>.
\<close>

definition visit_io ::
  "env \<Rightarrow> hazards \<Rightarrow> string \<Rightarrow> console_run \<Rightarrow> string \<Rightarrow> thrown option \<times> console_run" where
  "visit_io world hz keyword s url =
     (if interrupted hz (page_loads (core s)) then (Some KeyboardInterrupt, s)
      else
        (let s1 = s\<lparr>core := (core s)\<lparr>page_loads := Suc (page_loads (core s))\<rparr>\<rparr>
         in case fetch world (page_loads (core s)) url of
              Inl e \<Rightarrow> (Some (Error e), s1)
            | Inr page \<Rightarrow>
                (let text = lower page
                 in if hiring_signal text \<and> is_recent_job_posting text
                    then (case py_print hz s1 of
                            (Some x, s2) \<Rightarrow> (Some x, s2)
                          | (None, s2) \<Rightarrow>
                              (case map_of (results_by_keyword (core s2)) keyword of
                                 None \<Rightarrow> (Some (Error KeyError), s2)
                               | Some urls \<Rightarrow>
                                   (None,
                                    s2\<lparr>core := (core s2)\<lparr>results_by_keyword :=
                                          dict_set keyword (urls @ [url])
                                            (results_by_keyword (core s2))\<rparr>\<rparr>)))
                    else py_print hz s1)))"

text \<open>
  Lines 132 to 150: each handler prints and goes on; an exception of its \<open>print\<close> leaves
  the handler, and the interrupt passes both handlers.
\<close>

definition process_url_io ::
  "env \<Rightarrow> hazards \<Rightarrow> string \<Rightarrow> console_run \<Rightarrow> string \<Rightarrow> thrown option \<times> console_run" where
  "process_url_io world hz keyword s url =
     (case visit_io world hz keyword s url of
        (None, s') \<Rightarrow> (None, s')
      | (Some KeyboardInterrupt, s') \<Rightarrow> (Some KeyboardInterrupt, s')
      | (Some (Error e), s') \<Rightarrow>
          (if e = TimeoutException \<or> e = WebDriverException then py_print hz s'
           else py_print hz s'))"

text \<open>Lines 130 and 131: the loop over the generator, with the \<open>print\<close> of each URL.\<close>

fun for_urls_io ::
  "env \<Rightarrow> hazards \<Rightarrow> string \<Rightarrow> console_run \<Rightarrow> string gen \<Rightarrow> thrown option \<times> console_run" where
  "for_urls_io world hz keyword s Done = (None, s)"
| "for_urls_io world hz keyword s (Fails e) = (Some (Error e), s)"
| "for_urls_io world hz keyword s (Yield url g) =
     (case py_print hz s of
        (Some x, s1) \<Rightarrow> (Some x, s1)
      | (None, s1) \<Rightarrow>
          (case process_url_io world hz keyword s1 url of
             (Some x, s2) \<Rightarrow> (Some x, s2)
           | (None, s2) \<Rightarrow> for_urls_io world hz keyword s2 g))"

text \<open>
  Lines 127 to 153: the \<open>print\<close> of line 127 stands outside every \<open>try\<close>; the handler of
  line 151 prints and goes on with the next keyword.
\<close>

definition scrape_keyword_io ::
  "env \<Rightarrow> hazards \<Rightarrow> console_run \<Rightarrow> string \<Rightarrow> thrown option \<times> console_run" where
  "scrape_keyword_io world hz s keyword =
     (case py_print hz s of
        (Some x, s0) \<Rightarrow> (Some x, s0)
      | (None, s0) \<Rightarrow>
          (let s1 = s0\<lparr>core := (core s0)\<lparr>results_by_keyword :=
                                          dict_set keyword [] (results_by_keyword (core s0)),
                                        searches := Suc (searches (core s0))\<rparr>\<rparr>
           in case for_urls_io world hz keyword s1
                     (search world (searches (core s0)) (keyword @ '' job'')) of
                (None, s') \<Rightarrow> (None, s')
              | (Some KeyboardInterrupt, s') \<Rightarrow> (Some KeyboardInterrupt, s')
              | (Some (Error e), s') \<Rightarrow> py_print hz s'))"

fun for_keywords_io ::
  "env \<Rightarrow> hazards \<Rightarrow> console_run \<Rightarrow> string list \<Rightarrow> thrown option \<times> console_run" where
  "for_keywords_io world hz s [] = (None, s)"
| "for_keywords_io world hz s (keyword # rest) =
     (case scrape_keyword_io world hz s keyword of
        (Some x, s') \<Rightarrow> (Some x, s')
      | (None, s') \<Rightarrow> for_keywords_io world hz s' rest)"

text \<open>
  \<open>scrape_jobs\<close> as a whole: the first component is the exception that leaves the
  function, \<open>None\<close> when it returns; \<open>driver.quit\<close> at line 155 is reached only when the
  loop over the keywords ends without one.
\<close>

definition scrape_jobs_io ::
  "env \<Rightarrow> hazards \<Rightarrow> string list \<Rightarrow> thrown option \<times> console_run" where
  "scrape_jobs_io world hz keywords =
     (case py_print hz \<lparr>core = fresh, prints = 0\<rparr> of
        (Some x, s0) \<Rightarrow> (Some x, s0)
      | (None, s0) \<Rightarrow>
          (case start_driver world of
             Some e \<Rightarrow> py_print hz s0
           | None \<Rightarrow>
               (case for_keywords_io world hz s0 keywords of
                  (Some x, s) \<Rightarrow> (Some x, s)
                | (None, s) \<Rightarrow> (None, s\<lparr>core := (core s)\<lparr>quits := Suc (quits (core s))\<rparr>\<rparr>))))"

section \<open>The upload route\<close>

text \<open>
  What \<open>recommend_jobs\<close> calls outside this file: the two document parsers, the
  decoding of the bytes as UTF-8, the language model, the web, and the HTTP POST to
  the Go server, which answers with a status code or raises. \<open>pdf_pages\<close> stands for
  \<open>PdfReader\<close> followed by \<open>extract_text\<close> on each page, \<open>docx_text\<close> for the whole
  expression \<open>docx2txt.process(...).decode("utf-8")\<close>.
\<close>

record services =
  nlp :: "(string \<Rightarrow> entity list) option"
  pdf_pages :: "string \<Rightarrow> exn + string list"
  docx_text :: "string \<Rightarrow> exn + string"
  utf8_decode :: "string \<Rightarrow> exn + string"
  web :: env
  post :: "jobs \<Rightarrow> exn + nat"

record upload =
  filename :: string
  file_content :: string

text \<open>
  What one request leaves behind: the reply, either an exception that escapes the route
  or the returned dictionary as the pair of its \<open>status\<close> and \<open>message\<close>, and the
  stages of the pipeline that were called.
\<close>

datatype stage = Extraction | Scraping | Publishing

record served =
  reply :: "exn + string \<times> string"
  invoked :: "stage list"

text \<open>\<open>file.filename.split('.')[-1].lower()\<close>: what follows the last dot, lower-cased.\<close>

definition file_type :: "upload \<Rightarrow> string" where
  "file_type file = lower (last (split_at (CHR ''.'') [] (filename file)))"

text \<open>
  Step 1 of the route, reading the file: \<open>Inl\<close> is a reply that ends the request at
  once, the returned error dictionary of the two handlers or, for plain text, the
  exception of \<open>decode\<close>, which no handler catches; \<open>Inr\<close> is the resume text.
\<close>

definition read_file :: "services \<Rightarrow> upload \<Rightarrow> (exn + string \<times> string) + string" where
  "read_file svc file =
     (let content = file_content file
      in if file_type file = ''pdf'' then
           (case pdf_pages svc content of
              Inl e \<Rightarrow> Inl (Inr (''error'', ''Failed to parse PDF content.''))
            | Inr pages \<Rightarrow> Inr (concat pages))
         else if file_type file = ''docx'' then
           (case docx_text svc content of
              Inl e \<Rightarrow> Inl (Inr (''error'', ''Failed to parse DOCX content.''))
            | Inr resume_text \<Rightarrow> Inr resume_text)
         else
           (case utf8_decode svc content of
              Inl e \<Rightarrow> Inl (Inl e)
            | Inr resume_text \<Rightarrow> Inr resume_text))"

text \<open>
  Step 4, the POST and the reply made from it; only \<open>RequestException\<close> is caught.
\<close>

definition send_to_go_server :: "services \<Rightarrow> jobs \<Rightarrow> exn + string \<times> string" where
  "send_to_go_server svc fetched_jobs =
     (case post svc fetched_jobs of
        Inr status_code \<Rightarrow>
          (if status_code = 200
           then Inr (''success'', ''Job data sent to Go server.'')
           else Inr (''error'', ''Failed to send data to Go server.''))
      | Inl (RequestException e) \<Rightarrow> Inr (''error'', ''Connection error: '' @ e)
      | Inl e \<Rightarrow> Inl e)"

definition recommend_jobs :: "services \<Rightarrow> upload \<Rightarrow> served" where
  "recommend_jobs svc file =
     (case read_file svc file of
        Inl early \<Rightarrow> \<lparr>reply = early, invoked = []\<rparr>
      | Inr resume_text \<Rightarrow>
          (let keywords = extract_keywords_from_resume (nlp svc) resume_text;
               fetched_jobs = results_by_keyword (scrape_jobs (web svc) keywords)
           in \<lparr>reply = send_to_go_server svc fetched_jobs,
               invoked = [Extraction, Scraping, Publishing]\<rparr>))"

section \<open>The specification's wording\<close>

text \<open>Occurrence as a substring, said without an algorithm.\<close>

definition occurs_in :: "string \<Rightarrow> string \<Rightarrow> bool" where
  "occurs_in p t = (\<exists>before after. t = before @ p @ after)"

text \<open>
  The recency policy as the specification words it: one of the three phrases, or a day
  count \<open>n\<close> from 1 to 7 in the form \<open>n day\<close> or \<open>nd\<close>, in the lower-cased text.
\<close>

definition IsRecent_spec :: "string \<Rightarrow> bool" where
  "IsRecent_spec text =
     (occurs_in ''just posted'' (lower text) \<or> occurs_in ''new'' (lower text)
      \<or> occurs_in ''24 hours'' (lower text)
      \<or> (\<exists>n. 1 \<le> n \<and> n \<le> 7
             \<and> (occurs_in (str n @ '' day'') (lower text) \<or> occurs_in (str n @ ''d'') (lower text))))"


text \<open>
  Whitespace inside a term: a whitespace character with a character that is not
  whitespace somewhere before it and somewhere after it.
\<close>

definition internal_whitespace :: "string \<Rightarrow> bool" where
  "internal_whitespace kw =
     (\<exists>a b c. kw = a @ b @ c \<and> (\<exists>x \<in> set a. \<not> isspace x) \<and> (\<exists>y \<in> set b. isspace y)
              \<and> (\<exists>z \<in> set c. \<not> isspace z))"

section \<open>Sample worlds\<close>

text \<open>A page that is a recent job advertisement, and one that is not.\<close>

definition advert :: string where
  "advert = ''We are Hiring - Just Posted''"

definition stale_page :: string where
  "stale_page = ''Careers archive, posted last month''"

text \<open>A world whose browser does not start.\<close>

definition no_browser :: env where
  "no_browser =
     \<lparr>start_driver = Some WebDriverException,
      search = (\<lambda>n query. Done),
      fetch = (\<lambda>n url. Inl TimeoutException)\<rparr>"


text \<open>A world where the search raises at once for \<open>Rust\<close>, as in the specification's example.\<close>

definition failing_search :: env where
  "failing_search =
     \<lparr>start_driver = None,
      search = (\<lambda>n query. if query = ''Rust job''
                           then Fails OtherException
                           else Yield ''https://jobs.example/go'' Done),
      fetch = (\<lambda>n url. Inr advert)\<rparr>"

text \<open>A world where every search hands out the same URL twice.\<close>

definition repeating_search :: env where
  "repeating_search =
     \<lparr>start_driver = None,
      search = (\<lambda>n query. Yield ''https://jobs.example/1'' (Yield ''https://jobs.example/1'' Done)),
      fetch = (\<lambda>n url. Inr advert)\<rparr>"


definition patchy_web :: env where
  "patchy_web =
     \<lparr>start_driver = None,
      search = (\<lambda>n query. Yield ''u1'' (Yield ''u2'' (Yield ''u3'' (Yield ''u4'' (Yield ''u5'' Done))))),
      fetch = (\<lambda>n url. if n = 1 then Inl TimeoutException
                        else if n = 3 then Inl WebDriverException
                        else if n = 2 then Inr stale_page
                        else Inr advert)\<rparr>"

text \<open>Services around a world, with a PDF parser and a DOCX parser that both fail.\<close>

definition broken_parsers :: services where
  "broken_parsers =
     \<lparr>nlp = Some no_entities,
      pdf_pages = (\<lambda>bytes. Inl OtherException),
      docx_text = (\<lambda>bytes. Inl OtherException),
      utf8_decode = (\<lambda>bytes. Inl UnicodeDecodeError),
      web = repeating_search,
      post = (\<lambda>payload. Inr 200)\<rparr>"

text \<open>Two uploads for these services.\<close>

definition pdf_upload :: upload where
  "pdf_upload = \<lparr>filename = ''cv.final.PDF'', file_content = ''not a pdf''\<rparr>"

definition docx_upload :: upload where
  "docx_upload = \<lparr>filename = ''cv.docx'', file_content = ''not a docx''\<rparr>"

definition txt_upload :: upload where
  "txt_upload = \<lparr>filename = ''cv.txt'', file_content = ''not utf-8''\<rparr>"




text \<open>
  A quiet console without interrupt; an interrupt in the pause before the first page
  load; a console on which the second \<open>print\<close> of the run, the one of line 127 for the
  first keyword, raises.
\<close>

definition quiet :: hazards where
  "quiet = \<lparr>interrupted = (\<lambda>n. False), print_fails = (\<lambda>n. False)\<rparr>"

definition ctrl_c :: hazards where
  "ctrl_c = \<lparr>interrupted = (\<lambda>n. n = 0), print_fails = (\<lambda>n. False)\<rparr>"

definition closed_console :: hazards where
  "closed_console = \<lparr>interrupted = (\<lambda>n. False), print_fails = (\<lambda>n. n = 1)\<rparr>"

section \<open>Facts about strings and the recency classifier\<close>

lemma startswith_iff: "startswith p t \<longleftrightarrow> (\<exists>after. t = p @ after)"
  by (induction p t rule: startswith.induct) auto

lemma contains_occurs: "contains p t \<longleftrightarrow> occurs_in p t"
proof (induction t)
  case Nil
  show ?case by (auto simp: occurs_in_def)
next
  case (Cons c cs)
  have "occurs_in p (c # cs) \<longleftrightarrow> (\<exists>after. c # cs = p @ after) \<or> occurs_in p cs"
    unfolding occurs_in_def
  proof
    assume "\<exists>before after. c # cs = before @ p @ after"
    then obtain before after where e: "c # cs = before @ p @ after" by blast
    show "(\<exists>after. c # cs = p @ after) \<or> (\<exists>before after. cs = before @ p @ after)"
    proof (cases before)
      case Nil
      with e show ?thesis by auto
    next
      case (Cons b bs)
      with e have "cs = bs @ p @ after" by simp
      then show ?thesis by blast
    qed
  next
    assume "(\<exists>after. c # cs = p @ after) \<or> (\<exists>before after. cs = before @ p @ after)"
    then show "\<exists>before after. c # cs = before @ p @ after"
    proof
      assume "\<exists>after. c # cs = p @ after"
      then obtain after where "c # cs = [] @ p @ after" by auto
      then show ?thesis by blast
    next
      assume "\<exists>before after. cs = before @ p @ after"
      then obtain before after where "cs = before @ p @ after" by blast
      then have "c # cs = (c # before) @ p @ after" by simp
      then show ?thesis by blast
    qed
  qed
  with Cons show ?case by (simp add: startswith_iff)
qed

lemma occurs_in_lower: "occurs_in p t \<Longrightarrow> occurs_in (lower p) (lower t)"
proof -
  assume "occurs_in p t"
  then obtain before after where "t = before @ p @ after"
    unfolding occurs_in_def by blast
  then have "lower t = lower before @ lower p @ lower after"
    by (simp add: lower_def)
  then show ?thesis unfolding occurs_in_def by blast
qed

lemma day_loop_iff:
  "day_loop t ns \<longleftrightarrow> (\<exists>n \<in> set ns. contains (str n @ '' day'') t \<or> contains (str n @ ''d'') t)"
  by (induction ns) auto

lemma is_recent_spec: "is_recent_job_posting text = IsRecent_spec text"
proof -
  have "{1..<8} = {n::nat. 1 \<le> n \<and> n \<le> 7}" by auto
  then show ?thesis
    unfolding is_recent_job_posting_def IsRecent_spec_def Let_def day_loop_iff contains_occurs
    by auto
qed


lemma str_digits:
  "str 1 = ''1''" "str 2 = ''2''" "str 3 = ''3''" "str 4 = ''4''" "str 5 = ''5''" "str 6 = ''6''" "str 7 = ''7''"
  by code_simp+

lemma lower_day:
  "lower (str 1 @ '' day'') = str 1 @ '' day''" "lower (str 2 @ '' day'') = str 2 @ '' day''"
  "lower (str 3 @ '' day'') = str 3 @ '' day''" "lower (str 4 @ '' day'') = str 4 @ '' day''"
  "lower (str 5 @ '' day'') = str 5 @ '' day''" "lower (str 6 @ '' day'') = str 6 @ '' day''"
  "lower (str 7 @ '' day'') = str 7 @ '' day''"
  by code_simp+

lemma lower_d:
  "lower (str 1 @ ''d'') = str 1 @ ''d''" "lower (str 2 @ ''d'') = str 2 @ ''d''"
  "lower (str 3 @ ''d'') = str 3 @ ''d''" "lower (str 4 @ ''d'') = str 4 @ ''d''"
  "lower (str 5 @ ''d'') = str 5 @ ''d''" "lower (str 6 @ ''d'') = str 6 @ ''d''"
  "lower (str 7 @ ''d'') = str 7 @ ''d''"
  by code_simp+

lemma lower_patterns:
  assumes "n \<in> {1..7}"
  shows "lower (str n @ '' day'') = str n @ '' day''" and "lower (str n @ ''d'') = str n @ ''d''"
proof -
  from assms have "n = 1 \<or> n = 2 \<or> n = 3 \<or> n = 4 \<or> n = 5 \<or> n = 6 \<or> n = 7" by auto
  then show "lower (str n @ '' day'') = str n @ '' day''" and "lower (str n @ ''d'') = str n @ ''d''"
    using lower_day lower_d by auto
qed

lemma day_count_recent:
  assumes n: "n \<in> {1..7}"
    and occ: "occurs_in (str n @ '' day'') text \<or> occurs_in (str n @ ''d'') text"
  shows "is_recent_job_posting text"
proof -
  from occ have "occurs_in (str n @ '' day'') (lower text) \<or> occurs_in (str n @ ''d'') (lower text)"
    using occurs_in_lower [of "str n @ '' day''" "text"] occurs_in_lower [of "str n @ ''d''" "text"]
      lower_patterns [OF n] by auto
  moreover from n have "1 \<le> n \<and> n \<le> 7" by simp
  ultimately have "IsRecent_spec text" unfolding IsRecent_spec_def by blast
  then show ?thesis by (simp add: is_recent_spec)
qed

section \<open>Facts about the scrape coordinator\<close>

lemma map_of_dict_set: "map_of (dict_set k v d) = (map_of d)(k \<mapsto> v)"
  by (induction d) (auto simp: fun_eq_iff)

lemma keys_dict_set: "fst ` set (dict_set k v d) = insert k (fst ` set d)"
  by (induction d) auto

lemma distinct_dict_set: "distinct (map fst d) \<Longrightarrow> distinct (map fst (dict_set k v d))"
proof (induction d)
  case Nil
  show ?case by simp
next
  case (Cons p ps)
  have "fst ` set (dict_set k v ps) = insert k (fst ` set ps)" by (rule keys_dict_set)
  with Cons show ?case by auto
qed

lemma key_present: "map_of d k = Some v \<Longrightarrow> k \<in> fst ` set d"
  by (metis domI dom_map_of_conv_image_fst)

lemma process_url_counters:
  "searches (process_url w k st u) = searches st"
  "quits (process_url w k st u) = quits st"
  "page_loads (process_url w k st u) = Suc (page_loads st)"
  by (simp_all add: process_url_def visit_def Let_def split: sum.splits option.splits)

lemma process_url_entry:
  "map_of (results_by_keyword (process_url w k st u)) k =
     (case map_of (results_by_keyword st) k of
        None \<Rightarrow> None
      | Some urls \<Rightarrow> Some (if accepts (fetch w (page_loads st) u) then urls @ [u] else urls))"
  by (simp add: process_url_def visit_def Let_def accepts_def map_of_dict_set
      split: sum.splits option.splits)

lemma process_url_others:
  "k' \<noteq> k \<Longrightarrow> map_of (results_by_keyword (process_url w k st u)) k' = map_of (results_by_keyword st) k'"
  by (simp add: process_url_def visit_def Let_def map_of_dict_set split: sum.splits option.splits)

lemma process_url_keys:
  "fst ` set (results_by_keyword (process_url w k st u)) = fst ` set (results_by_keyword st)"
  by (auto simp: process_url_def visit_def Let_def keys_dict_set
      split: sum.splits option.splits dest: key_present)

lemma process_url_distinct:
  "distinct (map fst (results_by_keyword st)) \<Longrightarrow>
   distinct (map fst (results_by_keyword (process_url w k st u)))"
  by (simp add: process_url_def visit_def Let_def distinct_dict_set
      split: sum.splits option.splits)

lemma for_urls_counters:
  "searches (snd (for_urls w k st g)) = searches st"
  "quits (snd (for_urls w k st g)) = quits st"
  "page_loads (snd (for_urls w k st g)) = page_loads st + length (yielded g)"
  by (induction g arbitrary: st) (simp_all add: process_url_counters)

lemma for_urls_entry:
  "map_of (results_by_keyword st) k = Some urls \<Longrightarrow>
   map_of (results_by_keyword (snd (for_urls w k st g))) k =
     Some (urls @ accepted w (page_loads st) (yielded g))"
proof (induction g arbitrary: st urls)
  case (Yield u g)
  let ?st = "process_url w k st u"
  have "map_of (results_by_keyword ?st) k =
          Some (if accepts (fetch w (page_loads st) u) then urls @ [u] else urls)"
    using Yield.prems by (simp add: process_url_entry)
  from Yield.IH [OF this] show ?case
    by (simp add: process_url_counters)
qed simp_all

lemma for_urls_others:
  "k' \<noteq> k \<Longrightarrow> map_of (results_by_keyword (snd (for_urls w k st g))) k' = map_of (results_by_keyword st) k'"
  by (induction g arbitrary: st) (simp_all add: process_url_others)

lemma for_urls_keys:
  "fst ` set (results_by_keyword (snd (for_urls w k st g))) = fst ` set (results_by_keyword st)"
  by (induction g arbitrary: st) (simp_all add: process_url_keys)

lemma for_urls_distinct:
  "distinct (map fst (results_by_keyword st)) \<Longrightarrow>
   distinct (map fst (results_by_keyword (snd (for_urls w k st g))))"
  by (induction g arbitrary: st) (simp_all add: process_url_distinct)

lemma scrape_keyword_snd:
  "scrape_keyword w st k =
     snd (for_urls w k
            (st\<lparr>results_by_keyword := dict_set k [] (results_by_keyword st),
                searches := Suc (searches st)\<rparr>)
            (search w (searches st) (k @ '' job'')))"
  by (simp add: scrape_keyword_def Let_def split: prod.splits option.splits)

lemma scrape_keyword_counters:
  "searches (scrape_keyword w st k) = Suc (searches st)"
  "quits (scrape_keyword w st k) = quits st"
  "page_loads (scrape_keyword w st k) =
     page_loads st + length (yielded (search w (searches st) (k @ '' job'')))"
  by (simp_all add: scrape_keyword_snd for_urls_counters)

lemma scrape_keyword_entry:
  "map_of (results_by_keyword (scrape_keyword w st k)) k =
     Some (accepted w (page_loads st) (yielded (search w (searches st) (k @ '' job''))))"
  unfolding scrape_keyword_snd
  by (subst for_urls_entry [where urls = "[]"]) (simp_all add: map_of_dict_set)

lemma scrape_keyword_others:
  "k' \<noteq> k \<Longrightarrow> map_of (results_by_keyword (scrape_keyword w st k)) k' = map_of (results_by_keyword st) k'"
  by (simp add: scrape_keyword_snd for_urls_others map_of_dict_set)

lemma scrape_keyword_keys:
  "fst ` set (results_by_keyword (scrape_keyword w st k)) = insert k (fst ` set (results_by_keyword st))"
  by (simp add: scrape_keyword_snd for_urls_keys keys_dict_set)

lemma scrape_keyword_distinct:
  "distinct (map fst (results_by_keyword st)) \<Longrightarrow>
   distinct (map fst (results_by_keyword (scrape_keyword w st k)))"
  by (simp add: scrape_keyword_snd for_urls_distinct distinct_dict_set)

lemma for_keywords_counters:
  "searches (for_keywords w st ks) = searches st + length ks"
  "quits (for_keywords w st ks) = quits st"
  by (induction ks arbitrary: st) (simp_all add: scrape_keyword_counters)

lemma for_keywords_keys:
  "fst ` set (results_by_keyword (for_keywords w st ks)) = fst ` set (results_by_keyword st) \<union> set ks"
  by (induction ks arbitrary: st) (simp_all add: scrape_keyword_keys)

lemma for_keywords_distinct:
  "distinct (map fst (results_by_keyword st)) \<Longrightarrow>
   distinct (map fst (results_by_keyword (for_keywords w st ks)))"
  by (induction ks arbitrary: st) (simp_all add: scrape_keyword_distinct)

lemma for_keywords_others:
  "k \<notin> set ks \<Longrightarrow> map_of (results_by_keyword (for_keywords w st ks)) k = map_of (results_by_keyword st) k"
  by (induction ks arbitrary: st) (simp_all add: scrape_keyword_others)

lemma for_keywords_append:
  "for_keywords w st (ks1 @ ks2) = for_keywords w (for_keywords w st ks1) ks2"
  by (induction ks1 arbitrary: st) simp_all

lemma for_keywords_last_round:
  assumes "k \<notin> set ks2"
  shows "map_of (results_by_keyword (for_keywords w st (ks1 @ k # ks2))) k =
     Some (accepted w (page_loads (for_keywords w st ks1))
             (yielded (search w (searches st + length ks1) (k @ '' job''))))"
  using assms
  by (simp add: for_keywords_append for_keywords_others scrape_keyword_entry for_keywords_counters)

lemma subseq_accepted: "subseq (accepted w t urls) urls"
  by (induction urls arbitrary: t) auto


lemma advert_accepted: "accepts (Inr advert)"
  unfolding accepts_def by code_simp


lemma scrape_jobs_started:
  "start_driver world = None \<Longrightarrow>
   scrape_jobs world keywords =
     (for_keywords world fresh keywords)\<lparr>quits := Suc (quits (for_keywords world fresh keywords))\<rparr>"
  by (simp add: scrape_jobs_def Let_def)

lemma fresh_counters:
  "searches fresh = 0" "page_loads fresh = 0" "quits fresh = 0" "results_by_keyword fresh = []"
  by (simp_all add: fresh_def)

lemma set_accepted: "set (accepted w t urls) \<subseteq> set urls"
  by (induction urls arbitrary: t) auto

lemma distinct_accepted: "distinct urls \<Longrightarrow> distinct (accepted w t urls)"
proof (induction urls arbitrary: t)
  case Nil
  show ?case by simp
next
  case (Cons a urls)
  have "a \<notin> set (accepted w (Suc t) urls)"
    using Cons.prems set_accepted [of w "Suc t" urls] by auto
  with Cons show ?case by simp
qed

lemma count_accepted: "count_list (accepted w t urls) u \<le> count_list urls u"
proof (induction urls arbitrary: t)
  case Nil
  show ?case by simp
next
  case (Cons a urls)
  from Cons [of "Suc t"] show ?case by simp
qed


lemma final_entry:
  assumes "start_driver world = None" and "k \<notin> set ks2"
  shows "map_of (results_by_keyword (scrape_jobs world (ks1 @ k # ks2))) k =
           Some (accepted world (page_loads (for_keywords world fresh ks1))
                   (yielded (search world (length ks1) (k @ '' job''))))"
  using for_keywords_last_round [OF assms(2), of world fresh ks1]
  by (simp add: scrape_jobs_started [OF assms(1)] fresh_counters)

section \<open>Facts about the upload route\<close>

lemma split_at_nonempty: "split_at sep cur s \<noteq> []"
  by (induction s arbitrary: cur) auto

lemma send_reply:
  "send_to_go_server svc fetched = Inr (''error'', msg) \<Longrightarrow>
   msg = ''Failed to send data to Go server.'' \<or> (\<exists>e. msg = ''Connection error: '' @ e)"
  by (auto simp: send_to_go_server_def split: sum.splits exn.splits if_splits)

lemma read_file_pdf_message:
  "read_file svc f = Inl (Inr (''error'', ''Failed to parse PDF content.'')) \<Longrightarrow>
   file_type f = ''pdf'' \<and> (\<exists>e. pdf_pages svc (file_content f) = Inl e)"
  by (auto simp: read_file_def Let_def split: sum.splits if_splits)

lemma read_file_docx_message:
  "read_file svc f = Inl (Inr (''error'', ''Failed to parse DOCX content.'')) \<Longrightarrow>
   file_type f = ''docx'' \<and> (\<exists>e. docx_text svc (file_content f) = Inl e)"
  by (auto simp: read_file_def Let_def split: sum.splits if_splits)

lemma reply_parse_message:
  assumes "reply (recommend_jobs svc f) = Inr (''error'', msg)"
    and "msg = ''Failed to parse PDF content.'' \<or> msg = ''Failed to parse DOCX content.''"
  shows "read_file svc f = Inl (Inr (''error'', msg))"
proof (cases "read_file svc f")
  case (Inl early)
  with assms(1) show ?thesis by (simp add: recommend_jobs_def)
next
  case (Inr resume_text)
  with assms(1) obtain fetched where "send_to_go_server svc fetched = Inr (''error'', msg)"
    by (auto simp: recommend_jobs_def Let_def)
  from send_reply [OF this] assms(2) show ?thesis by auto
qed

lemma upload_types: "file_type pdf_upload = ''pdf''" "file_type docx_upload = ''docx''" "file_type txt_upload = ''txt''"
  by code_simp+

section \<open>Facts about the keyword extractor\<close>

lemma split_from_empty_iff:
  "split_from cur s = [] \<longleftrightarrow> cur = [] \<and> (\<forall>x \<in> set s. isspace x)"
  by (induction s arbitrary: cur) auto

lemma space_then_word_Cons:
  "(\<exists>a c. x # xs = a @ c \<and> (\<exists>y \<in> set a. isspace y) \<and> (\<exists>z \<in> set c. \<not> isspace z)) \<longleftrightarrow>
   (if isspace x then (\<exists>z \<in> set xs. \<not> isspace z)
    else (\<exists>a c. xs = a @ c \<and> (\<exists>y \<in> set a. isspace y) \<and> (\<exists>z \<in> set c. \<not> isspace z)))"
  (is "?L \<longleftrightarrow> ?R")
proof
  assume ?L
  then obtain a c where s: "x # xs = a @ c" and a: "\<exists>y \<in> set a. isspace y"
    and c: "\<exists>z \<in> set c. \<not> isspace z" by blast
  from a obtain a' where a': "a = x # a'" "xs = a' @ c"
    using s by (cases a) auto
  show ?R
  proof (cases "isspace x")
    case True
    with a' c show ?thesis by auto
  next
    case False
    with a a' have "\<exists>y \<in> set a'. isspace y" by auto
    with a' c False show ?thesis by auto
  qed
next
  assume r: ?R
  show ?L
  proof (cases "isspace x")
    case True
    with r have "x # xs = [x] @ xs \<and> (\<exists>y \<in> set [x]. isspace y) \<and> (\<exists>z \<in> set xs. \<not> isspace z)"
      by simp
    then show ?thesis by blast
  next
    case False
    with r obtain a c where "xs = a @ c" "\<exists>y \<in> set a. isspace y" "\<exists>z \<in> set c. \<not> isspace z"
      by auto
    then have "x # xs = (x # a) @ c \<and> (\<exists>y \<in> set (x # a). isspace y) \<and> (\<exists>z \<in> set c. \<not> isspace z)"
      by auto
    then show ?thesis by blast
  qed
qed

lemma internal_whitespace_Cons:
  "internal_whitespace (x # xs) \<longleftrightarrow>
   (if isspace x then internal_whitespace xs
    else (\<exists>a c. xs = a @ c \<and> (\<exists>y \<in> set a. isspace y) \<and> (\<exists>z \<in> set c. \<not> isspace z)))"
  (is "?L \<longleftrightarrow> ?R")
proof
  assume ?L
  then obtain a b c where s: "x # xs = a @ b @ c" and a: "\<exists>w \<in> set a. \<not> isspace w"
    and b: "\<exists>y \<in> set b. isspace y" and c: "\<exists>z \<in> set c. \<not> isspace z"
    unfolding internal_whitespace_def by blast
  from a obtain a' where a': "a = x # a'" "xs = a' @ b @ c"
    using s by (cases a) auto
  show ?R
  proof (cases "isspace x")
    case True
    with a a' have "\<exists>w \<in> set a'. \<not> isspace w" by auto
    with a' b c True show ?thesis unfolding internal_whitespace_def by auto
  next
    case False
    from a' b c have "xs = (a' @ b) @ c \<and> (\<exists>y \<in> set (a' @ b). isspace y) \<and> (\<exists>z \<in> set c. \<not> isspace z)"
      by auto
    with False show ?thesis by (simp only: if_False) blast
  qed
next
  assume r: ?R
  show ?L
  proof (cases "isspace x")
    case True
    with r obtain a b c where "xs = a @ b @ c" "\<exists>w \<in> set a. \<not> isspace w"
      "\<exists>y \<in> set b. isspace y" "\<exists>z \<in> set c. \<not> isspace z"
      unfolding internal_whitespace_def by auto
    then have "x # xs = (x # a) @ b @ c \<and> (\<exists>w \<in> set (x # a). \<not> isspace w)
        \<and> (\<exists>y \<in> set b. isspace y) \<and> (\<exists>z \<in> set c. \<not> isspace z)" by auto
    then show ?thesis unfolding internal_whitespace_def by blast
  next
    case False
    with r obtain a c where "xs = a @ c" "\<exists>y \<in> set a. isspace y" "\<exists>z \<in> set c. \<not> isspace z"
      by auto
    with False have "x # xs = [x] @ a @ c \<and> (\<exists>w \<in> set [x]. \<not> isspace w)
        \<and> (\<exists>y \<in> set a. isspace y) \<and> (\<exists>z \<in> set c. \<not> isspace z)" by auto
    then show ?thesis unfolding internal_whitespace_def by blast
  qed
qed

lemma internal_whitespace_Nil: "\<not> internal_whitespace []"
  by (simp add: internal_whitespace_def)

lemma split_from_many:
  "length (split_from cur s) > 1 \<longleftrightarrow>
   (if cur = [] then internal_whitespace s
    else (\<exists>a c. s = a @ c \<and> (\<exists>y \<in> set a. isspace y) \<and> (\<exists>z \<in> set c. \<not> isspace z)))"
proof (induction s arbitrary: cur)
  case Nil
  show ?case by (simp add: internal_whitespace_Nil)
next
  case (Cons x xs)
  show ?case
  proof (cases "isspace x")
    case True
    have "split_from [] xs \<noteq> [] \<longleftrightarrow> (\<exists>z \<in> set xs. \<not> isspace z)"
      by (simp add: split_from_empty_iff)
    with True Cons [of "[]"] show ?thesis
      by (simp add: internal_whitespace_Cons space_then_word_Cons)
  next
    case False
    with Cons [of "cur @ [x]"] show ?thesis
      by (simp add: internal_whitespace_Cons space_then_word_Cons)
  qed
qed

lemma long_enough_iff: "long_enough kw \<longleftrightarrow> internal_whitespace kw \<or> length kw > 3"
  using split_from_many [of "[]" kw] by (simp add: long_enough_def split_def)

lemma extract_set:
  "set (extract_keywords_from_resume (Some model) text) =
     {kw. (kw \<in> set (general_keywords (model text)) \<or> kw \<in> set (found_skills text))
          \<and> \<not> (length kw \<le> 3 \<and> \<not> internal_whitespace kw)}"
  by (auto simp: extract_keywords_from_resume_def Let_def long_enough_iff)

lemma found_skills_iff:
  "skill \<in> set (found_skills text) \<longleftrightarrow>
     skill \<in> set tech_skills \<and> occurs_in (lower skill) (lower text)"
  by (simp add: found_skills_def contains_occurs)

lemma short_skills_never_returned:
  "kw \<in> {''Vue'', ''SQL'', ''AWS'', ''API''} \<Longrightarrow>
   kw \<notin> set (extract_keywords_from_resume (Some model) text)"
proof -
  assume "kw \<in> {''Vue'', ''SQL'', ''AWS'', ''API''}"
  moreover have "\<not> long_enough ''Vue''" "\<not> long_enough ''SQL''" "\<not> long_enough ''AWS''"
    "\<not> long_enough ''API''" by code_simp+
  ultimately have "\<not> long_enough kw" by auto
  then show ?thesis by (simp add: extract_keywords_from_resume_def Let_def)
qed

section \<open>Facts about relevance\<close>



section \<open>Facts about the coordinator with console output and interrupts\<close>

text \<open>No path of the loops reaches \<open>driver.quit\<close>.\<close>

lemma py_print_core: "core (snd (py_print hz s)) = core s"
  by (simp add: py_print_def)

lemma visit_io_quits: "quits (core (snd (visit_io w hz k s u))) = quits (core s)"
  by (simp add: visit_io_def Let_def py_print_def split: sum.splits option.splits prod.splits)

lemma process_url_io_quits: "quits (core (snd (process_url_io w hz k s u))) = quits (core s)"
proof -
  obtain x s' where v: "visit_io w hz k s u = (x, s')" by (cases "visit_io w hz k s u")
  with visit_io_quits [of w hz k s u] have q: "quits (core s') = quits (core s)" by simp
  show ?thesis
    using q by (simp add: process_url_io_def v py_print_def split: option.splits thrown.splits)
qed

lemma for_urls_io_quits: "quits (core (snd (for_urls_io w hz k s g))) = quits (core s)"
proof (induction g arbitrary: s)
  case (Yield u g)
  obtain x1 s1 where p: "py_print hz s = (x1, s1)" by (cases "py_print hz s")
  with py_print_core [of hz s] have q1: "quits (core s1) = quits (core s)" by simp
  obtain x2 s2 where r: "process_url_io w hz k s1 u = (x2, s2)" by (cases "process_url_io w hz k s1 u")
  with process_url_io_quits [of w hz k s1 u] have q2: "quits (core s2) = quits (core s1)" by simp
  show ?case using q1 q2 Yield [of s2] by (simp add: p r split: option.splits)
qed simp_all

lemma handler_quits:
  "quits (core (snd (case r of
       (None, s') \<Rightarrow> (None, s')
     | (Some (Error e), s') \<Rightarrow> py_print hz s'
     | (Some KeyboardInterrupt, s') \<Rightarrow> (Some KeyboardInterrupt, s')))) = quits (core (snd r))"
  by (cases r) (simp add: py_print_def split: option.splits thrown.splits)

lemma scrape_keyword_io_quits: "quits (core (snd (scrape_keyword_io w hz s k))) = quits (core s)"
proof -
  obtain x0 s0 where p: "py_print hz s = (x0, s0)" by (cases "py_print hz s")
  with py_print_core [of hz s] have q0: "core s0 = core s" by simp
  show ?thesis
  proof (cases x0)
    case None
    show ?thesis
      unfolding scrape_keyword_io_def Let_def p None
      by (simp add: handler_quits for_urls_io_quits q0)
  next
    case (Some x)
    then show ?thesis by (simp add: scrape_keyword_io_def p q0)
  qed
qed

lemma for_keywords_io_quits: "quits (core (snd (for_keywords_io w hz s ks))) = quits (core s)"
proof (induction ks arbitrary: s)
  case (Cons k ks)
  obtain x s' where r: "scrape_keyword_io w hz s k = (x, s')" by (cases "scrape_keyword_io w hz s k")
  with scrape_keyword_io_quits [of w hz s k] have "quits (core s') = quits (core s)" by simp
  with Cons [of s'] show ?case by (simp add: r split: option.splits)
qed simp

lemma scrape_jobs_io_quits:
  "quits (core (snd (scrape_jobs_io w hz ks))) =
     (if start_driver w = None \<and> fst (scrape_jobs_io w hz ks) = None then 1 else 0)"
proof -
  let ?s = "\<lparr>core = fresh, prints = 0\<rparr>"
  obtain x0 s0 where p: "py_print hz ?s = (x0, s0)" by (cases "py_print hz ?s")
  with py_print_core [of hz ?s] have q0: "core s0 = fresh" by simp
  obtain x s where f: "for_keywords_io w hz s0 ks = (x, s)" by (cases "for_keywords_io w hz s0 ks")
  with for_keywords_io_quits [of w hz s0 ks] q0 have q: "quits (core s) = 0"
    by (simp add: fresh_counters)
  obtain x1 s1 where p1: "py_print hz s0 = (x1, s1)" by (cases "py_print hz s0")
  with py_print_core [of hz s0] q0 have q1: "quits (core s1) = 0" by (simp add: fresh_counters)
  show ?thesis
  proof (cases x0)
    case (Some y)
    then show ?thesis by (simp add: scrape_jobs_io_def p q0 fresh_counters)
  next
    case None
    show ?thesis
    proof (cases "start_driver w")
      case (Some e)
      then show ?thesis using q1 by (simp add: scrape_jobs_io_def p None p1)
    next
      case d: None
      show ?thesis
        using q by (cases x) (simp_all add: scrape_jobs_io_def p None d f)
    qed
  qed
qed

text \<open>
  On a console that never fails and without interrupt, the functions agree with the ones
  of the coordinator section.
\<close>

lemma py_print_calm:
  "\<forall>n. \<not> interrupted hz n \<and> \<not> print_fails hz n \<Longrightarrow>
   py_print hz s = (None, s\<lparr>prints := Suc (prints s)\<rparr>)"
  by (simp add: py_print_def)

lemma process_url_io_calm:
  assumes "\<forall>n. \<not> interrupted hz n \<and> \<not> print_fails hz n"
  shows "fst (process_url_io w hz k s u) = None"
    and "core (snd (process_url_io w hz k s u)) = process_url w k (core s) u"
  using assms
  by (simp_all add: process_url_io_def visit_io_def process_url_def visit_def Let_def py_print_def
      split: sum.splits option.splits)

lemma for_urls_io_calm:
  assumes "\<forall>n. \<not> interrupted hz n \<and> \<not> print_fails hz n"
  shows "fst (for_urls_io w hz k s g) = map_option Error (fst (for_urls w k (core s) g))
         \<and> core (snd (for_urls_io w hz k s g)) = snd (for_urls w k (core s) g)"
proof (induction g arbitrary: s)
  case (Yield u g)
  let ?s1 = "s\<lparr>prints := Suc (prints s)\<rparr>"
  obtain x2 s2 where r: "process_url_io w hz k ?s1 u = (x2, s2)"
    by (cases "process_url_io w hz k ?s1 u")
  with process_url_io_calm [OF assms, of w k ?s1 u]
  have "x2 = None" "core s2 = process_url w k (core s) u" by simp_all
  with Yield [of s2] show ?case
    by (simp add: py_print_calm [OF assms] r)
qed simp_all

lemma scrape_keyword_io_calm:
  assumes "\<forall>n. \<not> interrupted hz n \<and> \<not> print_fails hz n"
  shows "fst (scrape_keyword_io w hz s k) = None
         \<and> core (snd (scrape_keyword_io w hz s k)) = scrape_keyword w (core s) k"
proof -
  let ?s1 = "s\<lparr>prints := Suc (prints s),
               core := (core s)\<lparr>results_by_keyword := dict_set k [] (results_by_keyword (core s)),
                                 searches := Suc (searches (core s))\<rparr>\<rparr>"
  let ?g = "search w (searches (core s)) (k @ '' job'')"
  obtain x' s' where f: "for_urls_io w hz k ?s1 ?g = (x', s')"
    by (cases "for_urls_io w hz k ?s1 ?g")
  with for_urls_io_calm [OF assms, of w k ?s1 ?g]
  have c: "core s' = scrape_keyword w (core s) k"
    and "\<exists>y. x' = map_option Error y"
    by (auto simp: scrape_keyword_snd)
  then have "x' \<noteq> Some KeyboardInterrupt" by auto
  then show ?thesis
    using c by (simp add: scrape_keyword_io_def Let_def py_print_calm [OF assms] f
        split: option.splits thrown.splits)
qed

lemma for_keywords_io_calm:
  assumes "\<forall>n. \<not> interrupted hz n \<and> \<not> print_fails hz n"
  shows "fst (for_keywords_io w hz s ks) = None
         \<and> core (snd (for_keywords_io w hz s ks)) = for_keywords w (core s) ks"
proof (induction ks arbitrary: s)
  case (Cons k ks)
  obtain x s' where r: "scrape_keyword_io w hz s k = (x, s')" by (cases "scrape_keyword_io w hz s k")
  with scrape_keyword_io_calm [OF assms, of w s k]
  have "x = None" "core s' = scrape_keyword w (core s) k" by simp_all
  with Cons [of s'] show ?case by (simp add: r)
qed simp

lemma scrape_jobs_io_calm:
  assumes "\<forall>n. \<not> interrupted hz n \<and> \<not> print_fails hz n"
  shows "fst (scrape_jobs_io w hz ks) = None
         \<and> core (snd (scrape_jobs_io w hz ks)) = scrape_jobs w ks"
proof -
  let ?s0 = "\<lparr>core = fresh, prints = Suc 0\<rparr>"
  obtain x s where f: "for_keywords_io w hz ?s0 ks = (x, s)" by (cases "for_keywords_io w hz ?s0 ks")
  with for_keywords_io_calm [OF assms, of w ?s0 ks]
  have "x = None" "core s = for_keywords w fresh ks" by simp_all
  then show ?thesis
    by (simp add: scrape_jobs_io_def scrape_jobs_def Let_def py_print_calm [OF assms] f
        split: option.splits)
qed

section \<open>Facts about the curated skills\<close>

lemma curated_table:
  "list_all (\<lambda>skill. long_enough skill = (skill \<notin> set [''Vue'', ''SQL'', ''AWS'', ''API'']))
     tech_skills"
  by code_simp

lemma curated_long_enough:
  "skill \<in> set tech_skills \<Longrightarrow>
   long_enough skill = (skill \<notin> {''Vue'', ''SQL'', ''AWS'', ''API''})"
proof -
  assume "skill \<in> set tech_skills"
  with curated_table
  have "long_enough skill = (skill \<notin> set [''Vue'', ''SQL'', ''AWS'', ''API''])"
    unfolding list_all_iff by blast
  then show ?thesis by (simp only: list.set)
qed

section \<open>The claims\<close>

text \<open>
  C1, as stated, fails: in normal mode the extractor can return no keyword at all. On
  the empty resume, where the model finds no entity and no curated skill occurs,
  the result is the empty list.
\<close>

theorem extract_empty_counterexample:
  "extract_keywords_from_resume (Some no_entities) '''' = []"
  by code_simp

text \<open>
  C1, amended: without the language model the extractor returns the fixed fallback
  list of the two keywords \<open>Fallback\<close> and \<open>NLP Error\<close>. With the model, the result is
  non-empty exactly when some retained entity or some curated skill found in the text
  has more than one whitespace-separated word or more than three characters.
\<close>

theorem extract_nonempty_cases:
  "extract_keywords_from_resume None text = [''Fallback'', ''NLP Error'']
   \<and> length (extract_keywords_from_resume None text) = 2
   \<and> (extract_keywords_from_resume (Some model) text \<noteq> []) =
       (\<exists>kw. (kw \<in> set (general_keywords (model text)) \<or> kw \<in> set (found_skills text))
             \<and> (length (split kw) > 1 \<or> length kw > 3))"
  by (auto simp: extract_keywords_from_resume_def Let_def filter_empty_conv long_enough_def)

text \<open>
  C2, as stated, fails: when the browser does not start, \<open>scrape_jobs\<close> returns the
  empty dictionary, so the keyword \<open>Go\<close> that was passed in has no entry.
\<close>

theorem scrape_jobs_no_browser_counterexample:
  "''Go'' \<in> set [''Go'']
   \<and> map_of (results_by_keyword (scrape_jobs no_browser [''Go''])) ''Go'' = None"
  by (simp add: scrape_jobs_def no_browser_def fresh_def)

text \<open>
  C2, amended: when the browser starts, the returned dictionary has exactly one entry
  for each keyword passed in, whatever the searches and page loads did; when the
  browser does not start, the returned dictionary is empty.
\<close>

theorem scrape_jobs_entries:
  "(start_driver world = None \<longrightarrow>
      distinct (map fst (results_by_keyword (scrape_jobs world keywords)))
      \<and> fst ` set (results_by_keyword (scrape_jobs world keywords)) = set keywords)
   \<and> (start_driver world \<noteq> None \<longrightarrow> results_by_keyword (scrape_jobs world keywords) = [])"
  by (auto simp: scrape_jobs_def Let_def for_keywords_keys for_keywords_distinct fresh_def)

theorem scrape_jobs_entries_witness:
  "start_driver failing_search = None
   \<and> distinct (map fst (results_by_keyword (scrape_jobs failing_search [''Rust'', ''Go''])))
   \<and> fst ` set (results_by_keyword (scrape_jobs failing_search [''Rust'', ''Go''])) = {''Rust'', ''Go''}
   \<and> start_driver no_browser \<noteq> None
   \<and> results_by_keyword (scrape_jobs no_browser [''Rust'', ''Go'']) = []"
  using scrape_jobs_entries [of failing_search "[''Rust'', ''Go'']"]
    scrape_jobs_entries [of no_browser "[''Rust'', ''Go'']"]
  by (simp add: failing_search_def no_browser_def)

text \<open>
  C3: when the declared extension is \<open>pdf\<close> or \<open>docx\<close> and the parser fails, the route
  returns at once the error reply of that format and calls no stage of the pipeline.
  The two messages differ and each is returned for its own failure only; a plain-text
  upload that does not decode ends the request with the decoder's exception instead.
\<close>

theorem decode_failure_is_terminal:
  "(file_type f = ''pdf'' \<and> pdf_pages svc (file_content f) = Inl e \<longrightarrow>
      recommend_jobs svc f =
        \<lparr>reply = Inr (''error'', ''Failed to parse PDF content.''), invoked = []\<rparr>)
   \<and> (file_type f = ''docx'' \<and> docx_text svc (file_content f) = Inl e \<longrightarrow>
      recommend_jobs svc f =
        \<lparr>reply = Inr (''error'', ''Failed to parse DOCX content.''), invoked = []\<rparr>)
   \<and> (reply (recommend_jobs svc f) = Inr (''error'', ''Failed to parse PDF content.'') \<longrightarrow>
        file_type f = ''pdf'' \<and> (\<exists>e'. pdf_pages svc (file_content f) = Inl e'))
   \<and> (reply (recommend_jobs svc f) = Inr (''error'', ''Failed to parse DOCX content.'') \<longrightarrow>
        file_type f = ''docx'' \<and> (\<exists>e'. docx_text svc (file_content f) = Inl e'))
   \<and> (file_type f \<noteq> ''pdf'' \<and> file_type f \<noteq> ''docx''
        \<and> utf8_decode svc (file_content f) = Inl e \<longrightarrow>
      recommend_jobs svc f = \<lparr>reply = Inl e, invoked = []\<rparr>)"
proof -
  have a: "file_type f = ''pdf'' \<and> pdf_pages svc (file_content f) = Inl e \<longrightarrow>
      recommend_jobs svc f =
        \<lparr>reply = Inr (''error'', ''Failed to parse PDF content.''), invoked = []\<rparr>"
    by (simp add: recommend_jobs_def read_file_def Let_def)
  have b: "file_type f = ''docx'' \<and> docx_text svc (file_content f) = Inl e \<longrightarrow>
      recommend_jobs svc f =
        \<lparr>reply = Inr (''error'', ''Failed to parse DOCX content.''), invoked = []\<rparr>"
    by (simp add: recommend_jobs_def read_file_def Let_def)
  have c: "reply (recommend_jobs svc f) = Inr (''error'', ''Failed to parse PDF content.'') \<longrightarrow>
        file_type f = ''pdf'' \<and> (\<exists>e'. pdf_pages svc (file_content f) = Inl e')"
    using reply_parse_message [of svc f "''Failed to parse PDF content.''"]
      read_file_pdf_message [of svc f]
    by blast
  have d: "reply (recommend_jobs svc f) = Inr (''error'', ''Failed to parse DOCX content.'') \<longrightarrow>
        file_type f = ''docx'' \<and> (\<exists>e'. docx_text svc (file_content f) = Inl e')"
    using reply_parse_message [of svc f "''Failed to parse DOCX content.''"]
      read_file_docx_message [of svc f]
    by blast
  have g: "file_type f \<noteq> ''pdf'' \<and> file_type f \<noteq> ''docx''
        \<and> utf8_decode svc (file_content f) = Inl e \<longrightarrow>
      recommend_jobs svc f = \<lparr>reply = Inl e, invoked = []\<rparr>"
    by (simp add: recommend_jobs_def read_file_def Let_def)
  from a b c d g show ?thesis by blast
qed

theorem decode_failure_is_terminal_witness:
  "file_type pdf_upload = ''pdf''
   \<and> pdf_pages broken_parsers (file_content pdf_upload) = Inl OtherException
   \<and> recommend_jobs broken_parsers pdf_upload =
        \<lparr>reply = Inr (''error'', ''Failed to parse PDF content.''), invoked = []\<rparr>
   \<and> file_type docx_upload = ''docx''
   \<and> docx_text broken_parsers (file_content docx_upload) = Inl OtherException
   \<and> recommend_jobs broken_parsers docx_upload =
        \<lparr>reply = Inr (''error'', ''Failed to parse DOCX content.''), invoked = []\<rparr>
   \<and> file_type txt_upload \<noteq> ''pdf'' \<and> file_type txt_upload \<noteq> ''docx''
   \<and> utf8_decode broken_parsers (file_content txt_upload) = Inl UnicodeDecodeError
   \<and> recommend_jobs broken_parsers txt_upload = \<lparr>reply = Inl UnicodeDecodeError, invoked = []\<rparr>"
  using decode_failure_is_terminal [of pdf_upload broken_parsers OtherException]
    decode_failure_is_terminal [of docx_upload broken_parsers OtherException]
    decode_failure_is_terminal [of txt_upload broken_parsers UnicodeDecodeError]
    upload_types
  by (simp add: broken_parsers_def)

text \<open>
  C4: \<open>is_recent_job_posting\<close> is true exactly when the lower-cased text contains
  \<open>just posted\<close>, \<open>new\<close>, \<open>24 hours\<close>, or \<open>n day\<close> or \<open>nd\<close> for some \<open>n\<close> from 1 to 7;
  the four examples of the specification come out as it says.
\<close>

theorem is_recent_job_posting_policy:
  "is_recent_job_posting text = IsRecent_spec text
   \<and> is_recent_job_posting ''Just Posted 2 days ago''
   \<and> \<not> is_recent_job_posting ''Posted last month''
   \<and> is_recent_job_posting ''3d ago, apply now''
   \<and> \<not> is_recent_job_posting ''8 days ago''"
proof -
  have "is_recent_job_posting ''Just Posted 2 days ago''" by code_simp
  moreover have "\<not> is_recent_job_posting ''Posted last month''" by code_simp
  moreover have "is_recent_job_posting ''3d ago, apply now''" by code_simp
  moreover have "\<not> is_recent_job_posting ''8 days ago''" by code_simp
  ultimately show ?thesis by (simp add: is_recent_spec)
qed






text \<open>
  C7, as stated, fails: the curated list contains \<open>SQL\<close>, the resume below contains
  it, the scan of the list finds it, and yet the result of the extractor does not
  include it, because the final filter removes a term of three characters without
  whitespace.
\<close>

theorem short_skill_dropped:
  "''SQL'' \<in> set tech_skills
   \<and> contains (lower ''SQL'') (lower ''Five years of SQL and AWS'')
   \<and> ''SQL'' \<in> set (found_skills ''Five years of SQL and AWS'')
   \<and> ''SQL'' \<notin> set (extract_keywords_from_resume (Some no_entities) ''Five years of SQL and AWS'')"
  by code_simp

text \<open>
  C7, amended: the scan of the curated list finds a skill exactly when the skill occurs
  case-insensitively as a substring of the resume text, and the final keyword set is
  the union of the retained entities and the skills found, without exactly those terms
  that have at most three characters and no internal whitespace. So a curated skill is
  in the result exactly when it occurs in the text, or is the text of a retained
  entity, and is not one of the three-letter skills \<open>Vue\<close>, \<open>SQL\<close>, \<open>AWS\<close>, \<open>API\<close>.
\<close>

theorem extract_skill_policy:
  "(skill \<in> set (found_skills text) \<longleftrightarrow>
      skill \<in> set tech_skills \<and> occurs_in (lower skill) (lower text))
   \<and> set (extract_keywords_from_resume (Some model) text) =
       {kw. (kw \<in> set (general_keywords (model text)) \<or> kw \<in> set (found_skills text))
            \<and> \<not> (length kw \<le> 3 \<and> \<not> internal_whitespace kw)}
   \<and> (skill \<in> set tech_skills \<longrightarrow>
        (skill \<in> set (extract_keywords_from_resume (Some model) text)) =
          ((occurs_in (lower skill) (lower text) \<or> skill \<in> set (general_keywords (model text)))
           \<and> skill \<notin> {''Vue'', ''SQL'', ''AWS'', ''API''}))"
proof -
  have "skill \<in> set tech_skills \<longrightarrow>
        (skill \<in> set (extract_keywords_from_resume (Some model) text)) =
          ((occurs_in (lower skill) (lower text) \<or> skill \<in> set (general_keywords (model text)))
           \<and> skill \<notin> {''Vue'', ''SQL'', ''AWS'', ''API''})"
  proof
    assume s: "skill \<in> set tech_skills"
    have "(skill \<in> set (extract_keywords_from_resume (Some model) text)) =
        ((skill \<in> set (general_keywords (model text)) \<or> skill \<in> set (found_skills text))
         \<and> long_enough skill)"
      by (auto simp: extract_keywords_from_resume_def Let_def)
    with s show "(skill \<in> set (extract_keywords_from_resume (Some model) text)) =
          ((occurs_in (lower skill) (lower text) \<or> skill \<in> set (general_keywords (model text)))
           \<and> skill \<notin> {''Vue'', ''SQL'', ''AWS'', ''API''})"
      using curated_long_enough [OF s] found_skills_iff [of skill "text"] by blast
  qed
  with found_skills_iff [of skill "text"] extract_set [of model "text"] show ?thesis by blast
qed

theorem extract_skill_policy_witness:
  "''Python'' \<in> set tech_skills
   \<and> occurs_in (lower ''Python'') (lower ''python and SQL'')
   \<and> ''Python'' \<in> set (extract_keywords_from_resume (Some no_entities) ''python and SQL'')
   \<and> ''SQL'' \<in> set tech_skills
   \<and> occurs_in (lower ''SQL'') (lower ''python and SQL'')
   \<and> ''SQL'' \<notin> set (extract_keywords_from_resume (Some no_entities) ''python and SQL'')"
proof -
  have "contains (lower ''Python'') (lower ''python and SQL'')"
    "contains (lower ''SQL'') (lower ''python and SQL'')" by code_simp+
  then have occ: "occurs_in (lower ''Python'') (lower ''python and SQL'')"
    "occurs_in (lower ''SQL'') (lower ''python and SQL'')" by (simp_all add: contains_occurs)
  have curated: "''Python'' \<in> set tech_skills" "''SQL'' \<in> set tech_skills"
    by (simp_all add: tech_skills_def)
  note python = extract_skill_policy [of "''Python''" "''python and SQL''" no_entities,
      THEN conjunct2, THEN conjunct2, rule_format, OF curated(1)]
  note sql = extract_skill_policy [of "''SQL''" "''python and SQL''" no_entities,
      THEN conjunct2, THEN conjunct2, rule_format, OF curated(2)]
  have "''Python'' \<in> set (extract_keywords_from_resume (Some no_entities) ''python and SQL'')"
    unfolding python using occ(1) by simp
  moreover have "''SQL'' \<notin> set (extract_keywords_from_resume (Some no_entities) ''python and SQL'')"
    unfolding sql by simp
  ultimately show ?thesis using occ curated by blast
qed

text \<open>
  C8, as stated, fails: a search that yields the same URL twice, with a page that is
  accepted both times, records the URL twice under the keyword.
\<close>

theorem repeated_url_counterexample:
  "yielded (search repeating_search 0 ''Go job'')
     = [''https://jobs.example/1'', ''https://jobs.example/1'']
   \<and> map_of (results_by_keyword (scrape_jobs repeating_search [''Go''])) ''Go''
       = Some [''https://jobs.example/1'', ''https://jobs.example/1'']"
proof -
  have "start_driver repeating_search = None" by (simp add: repeating_search_def)
  from final_entry [OF this, of "''Go''" "[]" "[]"] show ?thesis
    using advert_accepted by (simp add: repeating_search_def fresh_counters)
qed

text \<open>
  C8, amended: when the browser has started, the entry of a keyword is a subsequence
  of the URLs its search yielded, so a URL appears in it at most as often as the search
  yielded it, and at most once when the yielded URLs are all different. The code does
  not remove repeats. (The entry is the one of the keyword's last occurrence in the
  list, and the search is the one issued for that occurrence.)
\<close>

theorem urls_recorded_as_often_as_yielded:
  assumes "start_driver world = None" and "k \<notin> set ks2"
  shows "\<exists>urls. map_of (results_by_keyword (scrape_jobs world (ks1 @ k # ks2))) k = Some urls
           \<and> subseq urls (yielded (search world (length ks1) (k @ '' job'')))
           \<and> count_list urls u \<le> count_list (yielded (search world (length ks1) (k @ '' job''))) u
           \<and> (distinct (yielded (search world (length ks1) (k @ '' job''))) \<longrightarrow> distinct urls)"
proof -
  let ?ys = "yielded (search world (length ks1) (k @ '' job''))"
  let ?urls = "accepted world (page_loads (for_keywords world fresh ks1)) ?ys"
  have "map_of (results_by_keyword (scrape_jobs world (ks1 @ k # ks2))) k = Some ?urls"
    by (rule final_entry [OF assms])
  moreover have "subseq ?urls ?ys" by (rule subseq_accepted)
  moreover have "count_list ?urls u \<le> count_list ?ys u" by (rule count_accepted)
  moreover have "distinct ?ys \<longrightarrow> distinct ?urls" by (simp add: distinct_accepted)
  ultimately show ?thesis by blast
qed

theorem urls_recorded_as_often_as_yielded_witness:
  "start_driver patchy_web = None \<and> ''Go'' \<notin> set [''Rust'']
   \<and> distinct (yielded (search patchy_web 0 ''Go job''))
   \<and> (\<exists>urls. map_of (results_by_keyword (scrape_jobs patchy_web [''Go'', ''Rust''])) ''Go'' = Some urls
         \<and> subseq urls [''u1'', ''u2'', ''u3'', ''u4'', ''u5'']
         \<and> count_list urls ''u1'' \<le> 1 \<and> distinct urls)"
  using urls_recorded_as_often_as_yielded [of patchy_web "''Go''" "[''Rust'']" "[]" "''u1''"]
  by (simp add: patchy_web_def)

text \<open>
  C9, as stated, fails: the source has no cleanup block around the loops. An interrupt
  in the pause before the first page load, or a \<open>print\<close> of line 127 that raises, leaves
  \<open>scrape_jobs\<close> by an exception with the browser started and \<open>driver.quit\<close> never
  called.
\<close>

theorem driver_not_released_counterexample:
  "start_driver patchy_web = None
   \<and> fst (scrape_jobs_io patchy_web ctrl_c [''Go'']) = Some KeyboardInterrupt
   \<and> quits (core (snd (scrape_jobs_io patchy_web ctrl_c [''Go'']))) = 0
   \<and> fst (scrape_jobs_io patchy_web closed_console [''Go'']) = Some (Error OtherException)
   \<and> quits (core (snd (scrape_jobs_io patchy_web closed_console [''Go'']))) = 0"
  by code_simp

text \<open>
  C9, amended: \<open>driver.quit\<close> is called exactly once when the browser has started and
  \<open>scrape_jobs\<close> returns, and not at all when the browser did not start or when an
  exception leaves the function. Whatever the searches and the page loads raise, as
  exceptions of class \<open>Exception\<close>, is caught inside the loops: on a console that does
  not fail and without interrupt the function always returns, with the result of the
  coordinator section and, the browser started, one call of \<open>driver.quit\<close>.
\<close>

theorem driver_release_by_exit:
  "quits (core (snd (scrape_jobs_io world hz keywords))) =
     (if start_driver world = None \<and> fst (scrape_jobs_io world hz keywords) = None then 1 else 0)
   \<and> ((\<forall>n. \<not> interrupted hz n \<and> \<not> print_fails hz n) \<longrightarrow>
        fst (scrape_jobs_io world hz keywords) = None
        \<and> core (snd (scrape_jobs_io world hz keywords)) = scrape_jobs world keywords
        \<and> (start_driver world = None \<longrightarrow> quits (scrape_jobs world keywords) = 1))"
proof -
  have "start_driver world = None \<longrightarrow> quits (scrape_jobs world keywords) = 1"
    by (simp add: scrape_jobs_def Let_def for_keywords_counters fresh_counters)
  with scrape_jobs_io_quits [of world hz "keywords"] scrape_jobs_io_calm [of hz world "keywords"]
  show ?thesis by blast
qed

theorem driver_release_by_exit_witness:
  "start_driver failing_search = None
   \<and> \<not> interrupted quiet 0 \<and> \<not> print_fails quiet 0
   \<and> fst (scrape_jobs_io failing_search quiet [''Rust'']) = None
   \<and> quits (core (snd (scrape_jobs_io failing_search quiet [''Rust'']))) = 1
   \<and> quits (scrape_jobs failing_search [''Rust'']) = 1
   \<and> start_driver no_browser \<noteq> None
   \<and> quits (core (snd (scrape_jobs_io no_browser quiet [''Go'']))) = 0"
proof -
  have q: "\<forall>n. \<not> interrupted quiet n \<and> \<not> print_fails quiet n" by (simp add: quiet_def)
  have d: "start_driver failing_search = None" by (simp add: failing_search_def)
  have n: "start_driver no_browser = Some WebDriverException" by (simp add: no_browser_def)
  note started = driver_release_by_exit [of failing_search quiet "[''Rust'']"]
  note failed = driver_release_by_exit [of no_browser quiet "[''Go'']", THEN conjunct1]
  from failed n have "quits (core (snd (scrape_jobs_io no_browser quiet [''Go'']))) = 0" by simp
  with started q d n show ?thesis by simp
qed

text \<open>
  C10: a text in which a digit from 1 to 7 is followed at once by \<open> day\<close> or by \<open>d\<close> is
  classified as recent, whatever stands before the digit; so are \<open>13 days ago\<close>,
  \<open>27 days ago\<close> and \<open>3d printing\<close>.
\<close>

theorem day_digit_substring_is_recent:
  "(n \<in> {1..7} \<and> (occurs_in (str n @ '' day'') text \<or> occurs_in (str n @ ''d'') text)
      \<longrightarrow> is_recent_job_posting text)
   \<and> is_recent_job_posting ''13 days ago''
   \<and> is_recent_job_posting ''27 days ago''
   \<and> is_recent_job_posting ''3d printing''"
proof -
  have "is_recent_job_posting ''13 days ago''" by code_simp
  moreover have "is_recent_job_posting ''27 days ago''" by code_simp
  moreover have "is_recent_job_posting ''3d printing''" by code_simp
  ultimately show ?thesis using day_count_recent by blast
qed

theorem day_digit_substring_is_recent_witness:
  "(5::nat) \<in> {1..7} \<and> occurs_in (str 5 @ '' day'') ''Posted 15 days ago''
   \<and> is_recent_job_posting ''Posted 15 days ago''"
proof -
  have "contains (str 5 @ '' day'') ''Posted 15 days ago''" by code_simp
  then have "occurs_in (str 5 @ '' day'') ''Posted 15 days ago''" by (simp add: contains_occurs)
  then show ?thesis
    using day_digit_substring_is_recent [of 5 "''Posted 15 days ago''"] by simp
qed

end
